theory Spec2Isabelle
  imports Complex_Main "HOL-Library.Log_Nat"
begin

section \<open>Data model\<close>

text \<open>
  The application is a single React component \<open>App\<close> whose hooks hold the session.
  \<open>T | null\<close> is modelled as \<open>T option\<close>. A JavaScript number is a binary64 value; the
  finite ones are modelled as the real numbers they denote, and the subtraction in the
  similarity score and the product in the label of a box round their results to binary64.
  Infinities and NaN are outside the model.
\<close>

datatype AppState = LOADING_MODELS | IDLE | PROCESSING | FINISHED

text \<open>The interface \<open>FaceMatchResult\<close>: the Match Record.\<close>

record FaceMatchResult =
  score :: real
  frameDataUrl :: string
  timestamp :: real
  age :: int
  gender :: string
  genderProbability :: real
  expression :: "string option"

text \<open>
  One entry of \<open>resizedDetections\<close>, as the face engine returns it. \<open>d_distance\<close> is the
  value the engine's \<open>euclideanDistance(targetDescriptor, detection.descriptor)\<close> returns for
  this detection; \<open>d_expressions\<close> lists the expression object's keys with their
  probabilities, in key order.
\<close>

record detection =
  d_distance :: real
  d_age :: real
  d_gender :: string
  d_genderProbability :: real
  d_expressions :: "(string \<times> real) list"

text \<open>
  What one iteration of \<open>processFrame\<close> reads once the detection call has resolved: the
  detections, and the video element's current time and picture, which the record's
  updater captures.
\<close>

record frame =
  currentTime :: real
  snapshot :: string
  faces :: "detection list"

section \<open>Per-detection computations of \<open>processFrame\<close>\<close>

text \<open>
  Rounding to binary64, to the nearest value and to the even significand in a tie.
  \<open>roundEven\<close> rounds to the nearest integer, to the even one in a tie. \<open>exponent x\<close>, for
  \<open>x > 0\<close>, is the \<open>e\<close> with \<open>2^e \<le> x < 2^(e + 1)\<close>. A binary64 value has 53 significant
  bits, so around \<open>x\<close> the values are the multiples of \<open>2^(e - 52)\<close>, and of \<open>2^(-1074)\<close>
  below \<open>2^(-1022)\<close>, where the values are subnormal. The results in this program are far
  below the overflow threshold \<open>2^1024\<close>.
\<close>

definition roundEven :: "real \<Rightarrow> int" where
  "roundEven q =
     (let n = \<lfloor>q\<rfloor>
      in if q - of_int n < 1 / 2 then n
         else if q - of_int n > 1 / 2 then n + 1
         else if even n then n else n + 1)"

definition exponent :: "real \<Rightarrow> int" where
  "exponent x = (if 1 \<le> x then bitlen \<lfloor>x\<rfloor> - 1 else - bitlen (\<lceil>1 / x\<rceil> - 1))"

definition binary64 :: "real \<Rightarrow> real" where
  "binary64 x =
     (if x = 0 then 0
      else let e = max (exponent \<bar>x\<bar>) (- 1022);
               ulp = 2 powi (e - 52)
           in sgn x * of_int (roundEven (\<bar>x\<bar> / ulp)) * ulp)"

text \<open>
  \<open>const similarity = Math.max(0, 1 - distance)\<close>: the difference is rounded, the maximum
  is exact.
\<close>

definition similarity :: "real \<Rightarrow> real" where
  "similarity distance = max 0 (binary64 (1 - distance))"

text \<open>\<open>Math.round\<close> rounds to the nearest integer, halves upwards.\<close>

definition Math_round :: "real \<Rightarrow> int" where
  "Math_round x = \<lfloor>x + 1 / 2\<rfloor>"

text \<open>
  \<open>Object.keys(expressions).sort((a, b) => expressions[b] - expressions[a])[0]\<close>: the keys
  in descending order of probability (the sort is stable), then the first one, which is
  \<open>undefined\<close> when there is no key.
\<close>

definition sortedExpressions :: "(string \<times> real) list \<Rightarrow> string list" where
  "sortedExpressions expressions = map fst (sort_key (\<lambda>kv. - snd kv) expressions)"

definition dominantExpression :: "(string \<times> real) list \<Rightarrow> string option" where
  "dominantExpression expressions =
     (case sortedExpressions expressions of [] \<Rightarrow> None | k # _ \<Rightarrow> Some k)"

text \<open>Match thresholds.\<close>

definition isTarget :: "real \<Rightarrow> bool" where
  "isTarget sim = (sim \<ge> 0.5)"

definition isPossible :: "real \<Rightarrow> bool" where
  "isPossible sim = (sim \<ge> 0.4 \<and> sim < 0.5)"

text \<open>
  \<open>x.toFixed(0)\<close>: the nearest integer to \<open>x\<close>, the larger one of two equally near, in
  decimal digits; a negative \<open>x\<close> is printed as a minus sign and the digits of \<open>-x\<close>.
\<close>

definition digit :: "nat \<Rightarrow> char" where
  "digit n = ''0123456789'' ! n"

fun digits :: "nat \<Rightarrow> string" where
  "digits n = (if n < 10 then [digit n] else digits (n div 10) @ [digit (n mod 10)])"

declare digits.simps [simp del]

definition toFixed0 :: "real \<Rightarrow> string" where
  "toFixed0 x =
     (if x < 0 then CHR ''-'' # digits (nat \<lfloor>- x + 1 / 2\<rfloor>)
      else digits (nat \<lfloor>x + 1 / 2\<rfloor>))"

text \<open>
  The options of the \<open>DrawBox\<close> painted for a detection, with the canvas's
  \<open>globalAlpha\<close> while it is drawn. The product \<open>similarity * 100\<close> of the label is
  rounded to binary64; \<open>toFixed\<close> then works on the exact value of that number.
\<close>

record overlay =
  label :: string
  boxColor :: string
  lineWidth :: nat
  fontSize :: nat
  padding :: nat
  fontColor :: string
  globalAlpha :: real

definition drawBox :: "real \<Rightarrow> overlay" where
  "drawBox sim =
     \<lparr> label =
         (if isTarget sim then ''TARGET MATCH '' @ toFixed0 (binary64 (sim * 100)) @ ''%''
          else if isPossible sim then ''Possible '' @ toFixed0 (binary64 (sim * 100)) @ ''%''
          else ''Scan: '' @ toFixed0 (binary64 (sim * 100)) @ ''%''),
       boxColor =
         (if isTarget sim then ''#10b981''
          else if isPossible sim then ''#f59e0b''
          else ''#ef4444''),
       lineWidth = (if isTarget sim then 3 else if isPossible sim then 2 else 1),
       fontSize = (if isTarget sim then 18 else 12),
       padding = (if isTarget sim then 10 else 4),
       fontColor = (if isTarget sim then ''#ffffff'' else ''#ef4444''),
       globalAlpha = (if isTarget sim then 1.0 else 0.6) \<rparr>"

text \<open>
  The object literal the updater passed to \<open>setBestMatch\<close> returns: the score is
  \<open>frameBestSim\<close> as the updater reads it, the picture and time are the video's, the
  biometrics are those of the detection in whose iteration \<open>setBestMatch\<close> was called.
\<close>

definition newRecord :: "frame \<Rightarrow> detection \<Rightarrow> real \<Rightarrow> FaceMatchResult" where
  "newRecord f d frameBestSim =
     \<lparr> score = frameBestSim,
       frameDataUrl = snapshot f,
       timestamp = currentTime f,
       age = Math_round (d_age d),
       gender = d_gender d,
       genderProbability = d_genderProbability d,
       expression = dominantExpression (d_expressions d) \<rparr>"

text \<open>
  The updater \<open>(prev) => { if (!prev || frameBestSim > prev.score) {...} return prev; }\<close>
  that a call of \<open>setBestMatch\<close> queues. \<open>processFrame\<close> makes these calls after an
  \<open>await\<close>, so React does not run the updater in the call: it runs the queued updaters,
  in the order of the calls, when it next renders. By then \<open>forEach\<close> is over, and
  \<open>frameBestSim\<close>, a variable of \<open>processFrame\<close> that all updaters of the frame share, has
  its final value.
\<close>

definition updateBest ::
  "frame \<Rightarrow> detection \<Rightarrow> real \<Rightarrow> FaceMatchResult option \<Rightarrow> FaceMatchResult option" where
  "updateBest f d frameBestSim prev =
     (case prev of
        None \<Rightarrow> Some (newRecord f d frameBestSim)
      | Some p \<Rightarrow> if frameBestSim > score p then Some (newRecord f d frameBestSim) else prev)"

text \<open>
  What \<open>resizedDetections.forEach\<close> does to the local \<open>frameBestSim\<close>:
  \<open>if (similarity > frameBestSim) frameBestSim = similarity\<close> for each detection in turn.
  Each iteration also queues one updater.
\<close>

primrec forEach_detection :: "detection list \<Rightarrow> real \<Rightarrow> real" where
  "forEach_detection [] frameBestSim = frameBestSim"
| "forEach_detection (d # ds) frameBestSim =
     forEach_detection ds
       (if similarity (d_distance d) > frameBestSim then similarity (d_distance d)
        else frameBestSim)"

text \<open>
  The render after \<open>processFrame\<close>: the updaters queued for the detections \<open>ds\<close> run in
  order on the \<open>bestMatch\<close> state, all with the final \<open>frameBestSim\<close>.
\<close>

primrec runUpdaters ::
  "frame \<Rightarrow> real \<Rightarrow> detection list \<Rightarrow> FaceMatchResult option \<Rightarrow> FaceMatchResult option" where
  "runUpdaters f frameBestSim [] prev = prev"
| "runUpdaters f frameBestSim (d # ds) prev =
     runUpdaters f frameBestSim ds (updateBest f d frameBestSim prev)"

section \<open>Session state and handlers\<close>

text \<open>
  The hooks of \<open>App\<close>, and what the handlers touch outside them: whether the video element
  is paused, whether a \<open>requestAnimationFrame\<close> callback of \<open>processFrame\<close> is pending
  (the handle kept in \<open>requestRef\<close>), whether a \<open>detectAllFaces\<close> call of \<open>processFrame\<close> is
  in flight, and the overlays on the canvas. \<open>videoPaused\<close> follows the calls of \<open>play\<close> and
  \<open>pause\<close> the handlers make; a video element is paused when it is mounted. What the user
  does with the video's own controls is outside the model.
\<close>

record session =
  isAuthenticated :: bool
  state :: AppState
  targetImage :: "string option"
  videoSource :: "string option"
  bestMatch :: "FaceMatchResult option"
  currentSimilarity :: real
  targetDescriptor :: "real list option"
  error :: "string option"
  videoPaused :: bool
  scheduled :: bool
  awaiting :: bool
  canvas :: "overlay list"

definition initial :: session where
  "initial =
     \<lparr> isAuthenticated = False, state = LOADING_MODELS, targetImage = None,
       videoSource = None, bestMatch = None, currentSimilarity = 0,
       targetDescriptor = None, error = None, videoPaused = True, scheduled = False,
       awaiting = False, canvas = [] \<rparr>"

text \<open>
  \<open>loadModels\<close>, run once on mount. \<open>faceapi\<close> tells whether \<open>window.faceapi\<close> is there,
  \<open>loaded\<close> whether all five model loads resolve.
\<close>

definition loadModels :: "bool \<Rightarrow> bool \<Rightarrow> session \<Rightarrow> session" where
  "loadModels faceapi loaded s =
     (if faceapi \<and> loaded then s\<lparr>state := IDLE\<rparr>
      else s\<lparr>error := Some ''Failed to load AI models. Please check your internet connection.''\<rparr>)"

text \<open>
  \<open>handleImageUpload\<close>. A file is given by its object URL. The handler runs up to its
  first \<open>await\<close>, and resumes with what \<open>fetchImage\<close> and \<open>detectSingleFace\<close> gave: a
  detection with its descriptor, no detection, or an exception.
\<close>

datatype face_outcome = Detected "real list" | NoDetection | Threw

definition handleImageUpload_begin :: "string \<Rightarrow> session \<Rightarrow> session" where
  "handleImageUpload_begin url s = s\<lparr>targetImage := Some url, bestMatch := None\<rparr>"

definition handleImageUpload_resume :: "face_outcome \<Rightarrow> session \<Rightarrow> session" where
  "handleImageUpload_resume outcome s =
     (case outcome of
        Detected descriptor \<Rightarrow> s\<lparr>targetDescriptor := Some descriptor, error := None\<rparr>
      | NoDetection \<Rightarrow>
          s\<lparr>error := Some ''No face detected in the target image. Please choose another.'',
            targetDescriptor := None\<rparr>
      | Threw \<Rightarrow> s\<lparr>error := Some ''Error processing target image.''\<rparr>)"

definition handleImageUpload :: "string option \<Rightarrow> face_outcome \<Rightarrow> session \<Rightarrow> session" where
  "handleImageUpload file outcome s =
     (case file of
        None \<Rightarrow> s
      | Some url \<Rightarrow> handleImageUpload_resume outcome (handleImageUpload_begin url s))"

definition handleVideoUpload :: "string option \<Rightarrow> session \<Rightarrow> session" where
  "handleVideoUpload file s =
     (case file of
        None \<Rightarrow> s
      | Some url \<Rightarrow> s\<lparr>videoSource := Some url, bestMatch := None, currentSimilarity := 0\<rparr>)"

text \<open>
  \<open>processFrame\<close> up to its \<open>await\<close>; \<open>ended\<close> is \<open>video.ended\<close> as read there. Then the
  callback of \<open>requestAnimationFrame\<close>, which runs it when one is pending.
\<close>

definition processFrame_enter :: "bool \<Rightarrow> session \<Rightarrow> session" where
  "processFrame_enter ended s =
     (if ended then s\<lparr>state := FINISHED\<rparr>
      else if videoPaused s then s\<lparr>scheduled := True\<rparr>
      else s\<lparr>awaiting := True\<rparr>)"

definition animationFrame :: "bool \<Rightarrow> session \<Rightarrow> session" where
  "animationFrame ended s =
     (if scheduled s then processFrame_enter ended (s\<lparr>scheduled := False\<rparr>) else s)"

text \<open>
  \<open>processFrame\<close> from the point where the detection call has resolved, with the render
  that follows it: \<open>let frameBestSim = 0\<close>, the loop over the detections, then the queued
  updaters.
\<close>

definition processFrame_resume :: "frame \<Rightarrow> session \<Rightarrow> session" where
  "processFrame_resume f s =
     (let frameBestSim = forEach_detection (faces f) 0
      in s\<lparr>awaiting := False,
           canvas := map (\<lambda>d. drawBox (similarity (d_distance d))) (faces f),
           bestMatch := runUpdaters f frameBestSim (faces f) (bestMatch s),
           currentSimilarity := frameBestSim,
           scheduled := True\<rparr>)"

text \<open>
  \<open>startProcessing\<close>. The video and canvas elements are mounted exactly when a video
  source is loaded.
\<close>

definition startProcessing :: "bool \<Rightarrow> session \<Rightarrow> session" where
  "startProcessing ended s =
     (if videoSource s = None \<or> targetDescriptor s = None then s
      else processFrame_enter ended (s\<lparr>state := PROCESSING, videoPaused := False\<rparr>))"

definition stopProcessing :: "session \<Rightarrow> session" where
  "stopProcessing s = s\<lparr>videoPaused := True, scheduled := False, state := FINISHED\<rparr>"

definition resetApp :: "session \<Rightarrow> session" where
  "resetApp s =
     (stopProcessing s)
       \<lparr>targetImage := None, videoSource := None, bestMatch := None,
        targetDescriptor := None, currentSimilarity := 0, state := IDLE, error := None\<rparr>"

text \<open>The button on the reference image's preview.\<close>

definition clearTarget :: "session \<Rightarrow> session" where
  "clearTarget s = s\<lparr>targetImage := None, targetDescriptor := None\<rparr>"

section \<open>What \<open>App\<close> renders\<close>

text \<open>
  The parts of the rendered tree that depend on the session: the \<open>Reset\<close> button, the
  reference image's panel (the file input, or the preview with its clear button and the
  \<open>Face Encoding Ready\<close> badge), the video's panel (the file input, or the start/stop
  button with its caption, its \<open>disabled\<close> attribute and the hint under it), the error
  banner and the Match Record's card.
\<close>

datatype targetPanel = TargetInput | TargetPreview string bool

datatype sourcePanel = VideoInput | StartStopButton string bool bool

record mainView =
  resetButton :: bool
  target :: targetPanel
  source :: sourcePanel
  errorBanner :: "string option"
  matchCard :: "FaceMatchResult option"

datatype screen = LoginScreen | LoaderScreen | MainScreen mainView

definition renderTarget :: "session \<Rightarrow> targetPanel" where
  "renderTarget s =
     (case targetImage s of
        None \<Rightarrow> TargetInput
      | Some url \<Rightarrow> TargetPreview url (targetDescriptor s \<noteq> None))"

definition renderSource :: "session \<Rightarrow> sourcePanel" where
  "renderSource s =
     (case videoSource s of
        None \<Rightarrow> VideoInput
      | Some _ \<Rightarrow>
          StartStopButton
            (if state s = PROCESSING then ''Stop Scanning'' else ''Start Analysis'')
            (targetDescriptor s = None)
            (targetDescriptor s = None))"

definition render :: "session \<Rightarrow> screen" where
  "render s =
     (if \<not> isAuthenticated s then LoginScreen
      else if state s = LOADING_MODELS then LoaderScreen
      else MainScreen
        \<lparr> resetButton = (state s \<noteq> IDLE),
          target = renderTarget s,
          source = renderSource s,
          errorBanner = error s,
          matchCard = bestMatch s \<rparr>)"

text \<open>
  A click on the start/stop button: \<open>onClick\<close> is \<open>stopProcessing\<close> while processing and
  \<open>startProcessing\<close> otherwise; a disabled button, or one that is not rendered, takes no
  click.
\<close>

definition clickStartStop :: "bool \<Rightarrow> session \<Rightarrow> session" where
  "clickStartStop ended s =
     (case render s of
        MainScreen v \<Rightarrow>
          (case source v of
             StartStopButton _ disabled _ \<Rightarrow>
               if disabled then s
               else if state s = PROCESSING then stopProcessing s
               else startProcessing ended s
           | VideoInput \<Rightarrow> s)
      | _ \<Rightarrow> s)"

section \<open>A run of the frame scan loop\<close>

text \<open>
  The frames on which detection ran, in order: each is an animation callback that finds
  the video playing, followed by the rest of \<open>processFrame\<close> and the render that runs
  the queued updaters.
\<close>

primrec scanFrames :: "frame list \<Rightarrow> session \<Rightarrow> session" where
  "scanFrames [] s = s"
| "scanFrames (f # fs) s = scanFrames fs (processFrame_resume f (animationFrame False s))"

text \<open>The detections of a run in the order they are processed, each with its frame.\<close>

definition candidates :: "frame list \<Rightarrow> (frame \<times> detection) list" where
  "candidates fs = concat (map (\<lambda>f. map (Pair f) (faces f)) fs)"

definition sim_of :: "frame \<times> detection \<Rightarrow> real" where
  "sim_of c = similarity (d_distance (snd c))"

definition record_of :: "frame \<times> detection \<Rightarrow> FaceMatchResult" where
  "record_of c = newRecord (fst c) (snd c) (sim_of c)"

text \<open>The value \<open>frameBestSim\<close> has after the loop over a frame's detections.\<close>

definition frameBest :: "frame \<Rightarrow> real" where
  "frameBest f = forEach_detection (faces f) 0"

text \<open>
  The successive values of \<open>bestMatch\<close> during a run: the value after each updater.
\<close>

primrec traceUpdaters ::
  "frame \<Rightarrow> real \<Rightarrow> detection list \<Rightarrow> FaceMatchResult option \<Rightarrow> FaceMatchResult option list" where
  "traceUpdaters f frameBestSim [] prev = []"
| "traceUpdaters f frameBestSim (d # ds) prev =
     updateBest f d frameBestSim prev
     # traceUpdaters f frameBestSim ds (updateBest f d frameBestSim prev)"

primrec traceFrames :: "frame list \<Rightarrow> FaceMatchResult option \<Rightarrow> FaceMatchResult option list" where
  "traceFrames [] bm = []"
| "traceFrames (f # fs) bm =
     traceUpdaters f (frameBest f) (faces f) bm
     @ traceFrames fs (runUpdaters f (frameBest f) (faces f) bm)"

text \<open>Two consecutive values of the record: the score does not go down.\<close>

fun score_kept :: "FaceMatchResult option \<Rightarrow> FaceMatchResult option \<Rightarrow> bool" where
  "score_kept None _ = True"
| "score_kept (Some p) None = False"
| "score_kept (Some p) (Some q) = (score p \<le> score q)"

text \<open>Two consecutive values of the record: it is kept, or replaced by a higher score.\<close>

fun kept_or_raised :: "FaceMatchResult option \<Rightarrow> FaceMatchResult option \<Rightarrow> bool" where
  "kept_or_raised None _ = True"
| "kept_or_raised (Some p) None = False"
| "kept_or_raised (Some p) (Some q) = (q = p \<or> score p < score q)"

section \<open>Example inputs\<close>

text \<open>
  A signed-in session with the models loaded, a reference image whose descriptor has
  been computed, and a video: the start button is enabled.
\<close>

definition ready :: session where
  "ready =
     initial\<lparr>isAuthenticated := True, state := IDLE, targetImage := Some ''blob:face'',
       videoSource := Some ''blob:video'', targetDescriptor := Some [0, 1]\<rparr>"

text \<open>
  Faces at distances 0.75, 0.25, 0.25 and 1 of the reference, and frames showing them.
  All numbers are binary64 values.
\<close>

definition face_a :: detection where
  "face_a = \<lparr> d_distance = 0.75, d_age = 34.5, d_gender = ''male'',
     d_genderProbability = 0.875, d_expressions = [(''happy'', 0.25), (''sad'', 0.75)] \<rparr>"

definition face_b :: detection where
  "face_b = \<lparr> d_distance = 0.25, d_age = 20.25, d_gender = ''female'',
     d_genderProbability = 0.75, d_expressions = [(''neutral'', 0.875)] \<rparr>"

definition face_c :: detection where
  "face_c = \<lparr> d_distance = 0.25, d_age = 50, d_gender = ''male'',
     d_genderProbability = 0.625, d_expressions = [] \<rparr>"

definition face_far :: detection where
  "face_far = \<lparr> d_distance = 1, d_age = 41, d_gender = ''female'',
     d_genderProbability = 0.75, d_expressions = [(''neutral'', 1)] \<rparr>"

definition frame_1 :: frame where
  "frame_1 = \<lparr> currentTime = 1, snapshot = ''data:1'', faces = [face_a] \<rparr>"

definition frame_2 :: frame where
  "frame_2 = \<lparr> currentTime = 2, snapshot = ''data:2'', faces = [face_b, face_c] \<rparr>"

definition frame_3 :: frame where
  "frame_3 = \<lparr> currentTime = 3, snapshot = ''data:3'', faces = [face_far] \<rparr>"

definition frame_4 :: frame where
  "frame_4 = \<lparr> currentTime = 4, snapshot = ''data:4'', faces = [face_a, face_b] \<rparr>"

text \<open>The session \<open>ready\<close> after the start button and one processed frame.\<close>

definition scanned :: session where
  "scanned = processFrame_resume frame_2 (clickStartStop False ready)"

section \<open>The record of a run\<close>

text \<open>
  The record \<open>r\<close> has the highest similarity of the run \<open>fs\<close> as its score, and the
  snapshot and timestamp of frame \<open>i\<close>, the earliest frame whose best similarity is that
  score.
\<close>

definition global_max :: "frame list \<Rightarrow> FaceMatchResult \<Rightarrow> nat \<Rightarrow> bool" where
  "global_max fs r i \<longleftrightarrow>
     (\<exists>c\<in>set (candidates fs). sim_of c = score r)
   \<and> (\<forall>c\<in>set (candidates fs). sim_of c \<le> score r)
   \<and> i < length fs \<and> faces (fs ! i) \<noteq> [] \<and> frameBest (fs ! i) = score r
   \<and> frameDataUrl r = snapshot (fs ! i) \<and> timestamp r = currentTime (fs ! i)
   \<and> (\<forall>j<i. faces (fs ! j) = [] \<or> frameBest (fs ! j) < score r)"

section \<open>Lemmas on rounding\<close>

lemma roundEven_of_int: "roundEven (of_int n) = n"
  by (simp add: roundEven_def)

lemma roundEven_le: "q \<le> of_int N \<Longrightarrow> roundEven q \<le> N"
  unfolding roundEven_def Let_def by (auto; linarith)

lemma roundEven_ge: "of_int N \<le> q \<Longrightarrow> N \<le> roundEven q"
  unfolding roundEven_def Let_def by (auto; linarith)

lemma roundEven_below_half: "q < of_int N - 1 / 2 \<Longrightarrow> roundEven q \<le> N - 1"
  unfolding roundEven_def Let_def by (auto; linarith)

lemma roundEven_upper_half:
  "of_int N - 1 / 2 \<le> q \<Longrightarrow> q \<le> of_int N \<Longrightarrow> even N \<Longrightarrow> roundEven q = N"
proof (cases "q = of_int N")
  case True
  then show ?thesis by (simp add: roundEven_of_int)
next
  case False
  assume a: "of_int N - 1 / 2 \<le> q" "q \<le> of_int N" "even N"
  with False have fl: "\<lfloor>q\<rfloor> = N - 1" by linarith
  from a have "odd (N - 1)" by simp
  with a fl show ?thesis unfolding roundEven_def Let_def by auto
qed

lemma exponent_bounds:
  assumes "0 < x"
  shows "2 powi exponent x \<le> x \<and> x < 2 powi (exponent x + 1)"
proof (cases "1 \<le> x")
  case True
  define n where "n = \<lfloor>x\<rfloor>"
  have n: "0 < n" "of_int n \<le> x" "x < of_int n + 1" using True by (simp_all add: n_def)
  from bitlen_bounds [OF n(1)] have b: "2 ^ nat (bitlen n - 1) \<le> n" "n < 2 ^ nat (bitlen n)" by simp_all
  have k: "1 \<le> bitlen n" using n(1) bitlen_eq_zero_iff [of n] bitlen_nonneg [of n] by linarith
  have e: "exponent x = bitlen n - 1" using True by (simp add: exponent_def n_def)
  have "(2::real) powi (bitlen n - 1) = of_int (2 ^ nat (bitlen n - 1))"
    using k by (simp add: power_int_def)
  also have "\<dots> \<le> of_int n" using b(1) by (simp only: of_int_le_iff)
  finally have lo: "2 powi exponent x \<le> x" using n(2) e by simp
  have "n + 1 \<le> 2 ^ nat (bitlen n)" using b(2) by simp
  then have "(of_int (n + 1) :: real) \<le> of_int (2 ^ nat (bitlen n))" by (simp only: of_int_le_iff)
  also have "\<dots> = 2 powi (bitlen n)" using k by (simp add: power_int_def)
  finally have "x < 2 powi (exponent x + 1)" using n(3) e by simp
  with lo show ?thesis by simp
next
  case False
  define m where "m = \<lceil>1 / x\<rceil> - 1"
  have y: "1 < 1 / x" using False assms by simp
  have m1: "0 < m" using y unfolding m_def by linarith
  have m2: "of_int m < 1 / x" unfolding m_def by linarith
  have m3: "1 / x \<le> of_int m + 1" unfolding m_def by linarith
  note m = m1 m2 m3
  from bitlen_bounds [OF m(1)] have b: "2 ^ nat (bitlen m - 1) \<le> m" "m < 2 ^ nat (bitlen m)" by simp_all
  have k: "1 \<le> bitlen m" using m(1) bitlen_eq_zero_iff [of m] bitlen_nonneg [of m] by linarith
  have e: "exponent x = - bitlen m" using False by (simp add: exponent_def m_def)
  have "m + 1 \<le> 2 ^ nat (bitlen m)" using b(2) by simp
  then have "(of_int (m + 1) :: real) \<le> of_int (2 ^ nat (bitlen m))" by (simp only: of_int_le_iff)
  then have "of_int m + 1 \<le> (2::real) ^ nat (bitlen m)" by simp
  with m(3) have up: "1 / x \<le> 2 ^ nat (bitlen m)" by linarith
  have "(of_int (2 ^ nat (bitlen m - 1)) :: real) \<le> of_int m" using b(1) by (simp only: of_int_le_iff)
  then have "(2::real) ^ nat (bitlen m - 1) \<le> of_int m" by simp
  with m(2) have dn: "2 ^ nat (bitlen m - 1) < 1 / x" by linarith
  have p1: "(2::real) powi (- bitlen m) = 1 / 2 ^ nat (bitlen m)"
    using k by (simp add: power_int_minus_divide power_int_nonneg_exp)
  have p2: "(2::real) powi (- bitlen m + 1) = 1 / 2 ^ nat (bitlen m - 1)"
    using k power_int_minus_divide [of "2::real" "bitlen m - 1"]
    by (simp add: power_int_nonneg_exp)
  have lo: "2 powi exponent x \<le> x"
    unfolding e p1 using up assms by (simp add: field_simps)
  have hi: "x < 2 powi (exponent x + 1)"
    unfolding e p2 using dn assms by (simp add: field_simps)
  from lo hi show ?thesis by simp
qed


lemma exponent_unique:
  assumes "2 powi k \<le> x" and "x < 2 powi (k + 1)"
  shows "exponent x = k"
proof -
  have pos: "0 < x" using assms(1) zero_less_power_int [of "2::real" k] by linarith
  from exponent_bounds [OF pos] have b: "2 powi exponent x \<le> x" "x < 2 powi (exponent x + 1)"
    by simp_all
  have "(2::real) powi k < 2 powi (exponent x + 1)" using assms(1) b(2) by linarith
  then have 1: "k < exponent x + 1"
    using power_int_increasing [of "exponent x + 1" k "2::real"] by (cases "k < exponent x + 1") auto
  have "(2::real) powi exponent x < 2 powi (k + 1)" using assms(2) b(1) by linarith
  then have 2: "exponent x < k + 1"
    using power_int_increasing [of "k + 1" "exponent x" "2::real"] by (cases "exponent x < k + 1") auto
  from 1 2 show ?thesis by linarith
qed


lemma binary64_pos_form:
  assumes "0 < x"
  shows "binary64 x = of_int (roundEven (x / 2 powi (max (exponent x) (- 1022) - 52)))
                        * 2 powi (max (exponent x) (- 1022) - 52)"
  using assms by (simp add: binary64_def Let_def)

lemma binary64_nonpos:
  assumes "x \<le> 0"
  shows "binary64 x \<le> 0"
proof (cases "x = 0")
  case True
  then show ?thesis by (simp add: binary64_def)
next
  case False
  with assms have neg: "x < 0" by simp
  define u where "u = (2::real) powi (max (exponent \<bar>x\<bar>) (- 1022) - 52)"
  have u: "0 < u" by (simp add: u_def)
  have "of_int 0 \<le> \<bar>x\<bar> / u" using u by simp
  then have "0 \<le> roundEven (\<bar>x\<bar> / u)" by (rule roundEven_ge)
  then have "0 \<le> of_int (roundEven (\<bar>x\<bar> / u)) * u" using u by simp
  moreover have "binary64 x = - (of_int (roundEven (\<bar>x\<bar> / u)) * u)"
    using neg by (simp add: binary64_def Let_def u_def)
  ultimately show ?thesis by simp
qed

lemma binary64_le_pow2:
  assumes "0 < x" and "x \<le> 2 powi k" and "- 1074 \<le> k"
  shows "binary64 x \<le> 2 powi k"
proof -
  define e where "e = max (exponent x) (- 1022)"
  define u where "u = (2::real) powi (e - 52)"
  have u: "0 < u" by (simp add: u_def)
  from exponent_bounds [OF assms(1)] have "2 powi exponent x \<le> x" by simp
  with assms(2) have "(2::real) powi exponent x \<le> 2 powi k" by linarith
  then have "exponent x \<le> k"
    using power_int_strict_increasing [of k "exponent x" "2::real"]
    by (cases "exponent x \<le> k") auto
  with assms(3) have ek: "0 \<le> k - (e - 52)" by (simp add: e_def)
  have split: "(2::real) powi k = of_int (2 ^ nat (k - (e - 52))) * u"
  proof -
    have "(2::real) powi k = 2 powi (k - (e - 52)) * 2 powi (e - 52)"
      by (simp flip: power_int_add)
    also have "(2::real) powi (k - (e - 52)) = of_int (2 ^ nat (k - (e - 52)))"
      using ek by (simp add: power_int_nonneg_exp)
    finally show ?thesis by (simp add: u_def)
  qed
  have "x / u \<le> of_int (2 ^ nat (k - (e - 52)))"
    using assms(2) u unfolding split by (simp add: field_simps)
  then have "roundEven (x / u) \<le> 2 ^ nat (k - (e - 52))" by (rule roundEven_le)
  then have "(of_int (roundEven (x / u)) :: real) \<le> of_int (2 ^ nat (k - (e - 52)))"
    by (simp only: of_int_le_iff)
  then have "of_int (roundEven (x / u)) * u \<le> of_int (2 ^ nat (k - (e - 52))) * u"
    using u by (simp only: mult_le_cancel_right_pos)
  then show ?thesis
    unfolding split binary64_pos_form [OF assms(1)] e_def u_def by simp
qed

lemma binary64_pos:
  assumes "2 powi (- 1022) \<le> x"
  shows "0 < binary64 x"
proof -
  have pos: "0 < x" using assms zero_less_power_int [of "2::real" "- 1022"] by linarith
  from exponent_bounds [OF pos] have b: "2 powi exponent x \<le> x" "x < 2 powi (exponent x + 1)"
    by simp_all
  have "(2::real) powi (- 1022) < 2 powi (exponent x + 1)" using assms b(2) by linarith
  then have "- 1022 < exponent x + 1"
    using power_int_increasing [of "exponent x + 1" "- 1022" "2::real"]
    by (cases "- 1022 < exponent x + 1") auto
  then have e: "max (exponent x) (- 1022) = exponent x" by simp
  define u where "u = (2::real) powi (exponent x - 52)"
  have u: "0 < u" by (simp add: u_def)
  have "u = 2 powi exponent x / 2 ^ 52" by (simp add: u_def power_int_diff)
  also have "\<dots> \<le> 2 powi exponent x" by (simp add: field_simps)
  finally have "u \<le> x" using b(1) by linarith
  then have "of_int 1 \<le> x / u" using u by (simp add: field_simps)
  then have "1 \<le> roundEven (x / u)" by (rule roundEven_ge)
  then have "0 < of_int (roundEven (x / u)) * u" using u by simp
  then show ?thesis unfolding binary64_pos_form [OF pos] e u_def .
qed

lemma exponent_half_one:
  assumes "1 / 2 \<le> x" and "x < 1"
  shows "exponent x = - 1"
  using assms by (intro exponent_unique) simp_all

lemma binary64_half_one:
  assumes "1 / 2 \<le> x" and "x < 1"
  shows "binary64 x = of_int (roundEven (x * 2 ^ 53)) / 2 ^ 53"
proof -
  have pos: "0 < x" using assms by simp
  have "(2::real) powi (- 53) = 1 / 2 ^ 53"
    by (simp add: power_int_minus_divide)
  then show ?thesis
    unfolding binary64_pos_form [OF pos] exponent_half_one [OF assms] by simp
qed

lemma binary64_one: "binary64 1 = 1"
  by (simp add: binary64_def exponent_def roundEven_def compute_bitlen)

lemma binary64_near_one:
  assumes "1 - 1 / 2 ^ 54 \<le> x" and "x \<le> 1"
  shows "binary64 x = 1"
proof (cases "x = 1")
  case True
  then show ?thesis by (simp add: binary64_one)
next
  case False
  with assms have lt: "x < 1" by simp
  have half: "1 / 2 \<le> x" using assms(1) by simp
  have "of_int (2 ^ 53) - 1 / 2 \<le> x * 2 ^ 53" using assms(1) by simp
  moreover have "x * 2 ^ 53 \<le> of_int (2 ^ 53)" using assms(2) by simp
  ultimately have "roundEven (x * 2 ^ 53) = 2 ^ 53"
    by (rule roundEven_upper_half) simp
  then show ?thesis unfolding binary64_half_one [OF half lt] by simp
qed

lemma binary64_below_one:
  assumes "x < 1 - 1 / 2 ^ 54"
  shows "binary64 x < 1"
proof -
  consider "x \<le> 0" | "0 < x" "x \<le> 1 / 2" | "1 / 2 < x" by linarith
  then show ?thesis
  proof cases
    case 1
    then have "binary64 x \<le> 0" by (rule binary64_nonpos)
    then show ?thesis by simp
  next
    case 2
    then have "binary64 x \<le> 2 powi (- 1)"
      by (intro binary64_le_pow2) simp_all
    then show ?thesis by simp
  next
    case 3
    then have half: "1 / 2 \<le> x" by simp
    have lt: "x < 1" using assms by simp
    have "x * 2 ^ 53 < of_int (2 ^ 53) - 1 / 2" using assms by simp
    then have "roundEven (x * 2 ^ 53) \<le> 2 ^ 53 - 1" by (rule roundEven_below_half)
    then have "(of_int (roundEven (x * 2 ^ 53)) :: real) \<le> of_int (2 ^ 53 - 1)"
      by (simp only: of_int_le_iff)
    then show ?thesis unfolding binary64_half_one [OF half lt] by simp
  qed
qed

lemma double_below_one:
  assumes "binary64 d = d" and "d < 1"
  shows "d \<le> 1 - 1 / 2 ^ 53"
proof (cases "1 / 2 \<le> d")
  case False
  then show ?thesis by simp
next
  case True
  define m where "m = roundEven (d * 2 ^ 53)"
  from binary64_half_one [OF True assms(2)] assms(1) have d: "d = of_int m / 2 ^ 53"
    by (simp add: m_def)
  with assms(2) have "(of_int m :: real) < of_int (2 ^ 53)" by simp
  then have "m < 2 ^ 53" by (simp only: of_int_less_iff)
  then have "m \<le> 2 ^ 53 - 1" by simp
  then have "(of_int m :: real) \<le> of_int (2 ^ 53 - 1)" by (simp only: of_int_le_iff)
  then show ?thesis unfolding d by simp
qed

section \<open>Lemmas on the scan loop\<close>

lemma similarity_nonneg: "0 \<le> similarity d"
  by (simp add: similarity_def)

lemma similarity_examples:
  "similarity (3 / 4) = 1 / 4" "similarity (1 / 4) = 3 / 4" "similarity 1 = 0"
  by (simp_all add: similarity_def binary64_def exponent_def roundEven_def compute_bitlen)

lemma bestMatch_animationFrame: "bestMatch (animationFrame e s) = bestMatch s"
  by (simp add: animationFrame_def processFrame_enter_def)

lemma bestMatch_resume:
  "bestMatch (processFrame_resume f s) = runUpdaters f (frameBest f) (faces f) (bestMatch s)"
  by (simp add: processFrame_resume_def frameBest_def Let_def)

lemma scanFrames_append:
  "scanFrames (fs @ gs) s = scanFrames gs (scanFrames fs s)"
  by (induction fs arbitrary: s) simp_all

lemma candidates_append: "candidates (fs @ gs) = candidates fs @ candidates gs"
  by (simp add: candidates_def)

lemma candidates_single: "candidates [f] = map (Pair f) (faces f)"
  by (simp add: candidates_def)

lemma candidates_Nil_iff: "candidates fs = [] \<longleftrightarrow> (\<forall>f\<in>set fs. faces f = [])"
  by (induction fs) (auto simp: candidates_def)

text \<open>The loop over the detections of a frame computes their maximal similarity.\<close>

lemma forEach_detection_ge: "fb \<le> forEach_detection ds fb"
proof (induction ds arbitrary: fb)
  case Nil
  show ?case by simp
next
  case (Cons d ds)
  have "fb \<le> (if similarity (d_distance d) > fb then similarity (d_distance d) else fb)"
    by simp
  also have "\<dots> \<le> forEach_detection (d # ds) fb"
    using Cons.IH by simp
  finally show ?case .
qed

lemma forEach_detection_upper:
  "d \<in> set ds \<Longrightarrow> similarity (d_distance d) \<le> forEach_detection ds fb"
proof (induction ds arbitrary: fb)
  case Nil
  then show ?case by simp
next
  case (Cons a ds)
  let ?fb = "if similarity (d_distance a) > fb then similarity (d_distance a) else fb"
  show ?case
  proof (cases "d = a")
    case True
    have "similarity (d_distance a) \<le> ?fb" by simp
    also have "\<dots> \<le> forEach_detection ds ?fb" by (rule forEach_detection_ge)
    finally show ?thesis using True by simp
  next
    case False
    with Cons.prems have "d \<in> set ds" by simp
    from Cons.IH [OF this, of ?fb] show ?thesis by simp
  qed
qed

lemma forEach_detection_attained:
  "forEach_detection ds fb = fb \<or> (\<exists>d\<in>set ds. similarity (d_distance d) = forEach_detection ds fb)"
proof (induction ds arbitrary: fb)
  case Nil
  show ?case by simp
next
  case (Cons a ds)
  let ?fb = "if similarity (d_distance a) > fb then similarity (d_distance a) else fb"
  from Cons.IH [of ?fb] show ?case by (auto split: if_splits)
qed

lemma frameBest_upper: "d \<in> set (faces f) \<Longrightarrow> similarity (d_distance d) \<le> frameBest f"
  unfolding frameBest_def by (rule forEach_detection_upper)

lemma frameBest_attained:
  assumes "faces f \<noteq> []"
  shows "\<exists>d\<in>set (faces f). similarity (d_distance d) = frameBest f"
proof -
  from forEach_detection_attained [of "faces f" 0]
  show ?thesis
  proof
    assume zero: "forEach_detection (faces f) 0 = 0"
    from assms obtain d where d: "d \<in> set (faces f)" by (cases "faces f") auto
    from forEach_detection_upper [OF d, of 0] zero similarity_nonneg [of "d_distance d"]
    have "similarity (d_distance d) = frameBest f" by (simp add: frameBest_def)
    with d show ?thesis by blast
  next
    assume "\<exists>d\<in>set (faces f). similarity (d_distance d) = forEach_detection (faces f) 0"
    then show ?thesis by (simp add: frameBest_def)
  qed
qed

text \<open>Of the updaters of a frame only the first can change the record.\<close>

lemma runUpdaters_stable: "x \<le> score p \<Longrightarrow> runUpdaters f x ds (Some p) = Some p"
  by (induction ds) (simp_all add: updateBest_def)

lemma runUpdaters_Cons_eq: "runUpdaters f x (d # ds) prev = updateBest f d x prev"
proof (cases prev)
  case None
  then show ?thesis by (simp add: updateBest_def runUpdaters_stable newRecord_def)
next
  case (Some p)
  then show ?thesis by (simp add: updateBest_def runUpdaters_stable newRecord_def)
qed

text \<open>The successive values of the record.\<close>

lemma last_append_Cons: "last ((x # xs) @ ys) = last (last (x # xs) # ys)"
  by (cases ys) simp_all

lemma updateBest_kept_or_raised: "kept_or_raised bm (updateBest f d x bm)"
  by (cases bm) (simp_all add: updateBest_def newRecord_def)

lemma traceUpdaters_successively:
  "successively kept_or_raised (bm # traceUpdaters f x ds bm)"
proof (induction ds arbitrary: bm)
  case Nil
  show ?case by simp
next
  case (Cons d ds)
  from Cons.IH [of "updateBest f d x bm"] updateBest_kept_or_raised [of bm f d x]
  show ?case by simp
qed

lemma traceUpdaters_last:
  "last (bm # traceUpdaters f x ds bm) = runUpdaters f x ds bm"
proof (induction ds arbitrary: bm)
  case Nil
  show ?case by simp
next
  case (Cons d ds)
  from Cons.IH [of "updateBest f d x bm"] show ?case by simp
qed

lemma traceFrames_successively: "successively kept_or_raised (bm # traceFrames fs bm)"
proof (induction fs arbitrary: bm)
  case Nil
  show ?case by simp
next
  case (Cons f fs)
  let ?bm' = "runUpdaters f (frameBest f) (faces f) bm"
  have a: "successively kept_or_raised (bm # traceUpdaters f (frameBest f) (faces f) bm)"
    by (rule traceUpdaters_successively)
  have b: "successively kept_or_raised (?bm' # traceFrames fs ?bm')"
    by (rule Cons.IH)
  have c: "last (bm # traceUpdaters f (frameBest f) (faces f) bm) = ?bm'"
    by (rule traceUpdaters_last)
  have "successively kept_or_raised
          ((bm # traceUpdaters f (frameBest f) (faces f) bm) @ traceFrames fs ?bm')"
    unfolding successively_append_iff using a b c
    by (auto simp: successively_Cons)
  then show ?case by simp
qed

lemma traceFrames_last:
  "last (bestMatch s # traceFrames fs (bestMatch s)) = bestMatch (scanFrames fs s)"
proof (induction fs arbitrary: s)
  case Nil
  show ?case by simp
next
  case (Cons f fs)
  let ?s' = "processFrame_resume f (animationFrame False s)"
  have bm': "bestMatch ?s' = runUpdaters f (frameBest f) (faces f) (bestMatch s)"
    by (simp add: bestMatch_resume bestMatch_animationFrame)
  have "last (bestMatch s # traceFrames (f # fs) (bestMatch s))
          = last ((bestMatch s # traceUpdaters f (frameBest f) (faces f) (bestMatch s))
                  @ traceFrames fs (bestMatch ?s'))"
    by (simp add: bm')
  also have "\<dots> = last (bestMatch ?s' # traceFrames fs (bestMatch ?s'))"
    unfolding last_append_Cons
    using traceUpdaters_last [of "bestMatch s" f "frameBest f" "faces f"]
    by (simp only: bm')
  also have "\<dots> = bestMatch (scanFrames fs ?s')" by (rule Cons.IH)
  finally show ?case by simp
qed

lemma kept_or_raised_score_kept: "kept_or_raised p q \<Longrightarrow> score_kept p q"
  by (cases p; cases q) auto

lemma traceFrames_first:
  assumes "candidates fs \<noteq> []"
  shows "traceFrames fs None \<noteq> [] \<and> hd (traceFrames fs None) \<noteq> None"
  using assms
proof (induction fs)
  case Nil
  then show ?case by (simp add: candidates_def)
next
  case (Cons f fs)
  show ?case
  proof (cases "faces f")
    case Nil
    with Cons show ?thesis by (simp add: candidates_def)
  next
    case (Cons d ds)
    then show ?thesis by (simp add: updateBest_def)
  qed
qed

lemma scanFrames_no_candidates:
  "candidates fs = [] \<Longrightarrow> bestMatch (scanFrames fs s) = bestMatch s"
proof (induction fs arbitrary: s)
  case Nil
  show ?case by simp
next
  case (Cons f fs)
  then have "faces f = []" and "candidates fs = []" by (simp_all add: candidates_def)
  with Cons.IH show ?case by (simp add: bestMatch_resume bestMatch_animationFrame)
qed

text \<open>One frame, as a step on the record.\<close>

lemma frame_step:
  "bestMatch (scanFrames (fs @ [f]) s)
     = runUpdaters f (frameBest f) (faces f) (bestMatch (scanFrames fs s))"
  by (simp add: scanFrames_append bestMatch_resume bestMatch_animationFrame)

lemma frame_step_kept:
  assumes "bestMatch s = Some p" and "frameBest f \<le> score p"
  shows "bestMatch (processFrame_resume f s) = Some p"
  using assms by (simp add: bestMatch_resume runUpdaters_stable)

text \<open>The record of a run that starts without one.\<close>

lemma sim_of_frame: "c \<in> set (map (Pair f) (faces f)) \<Longrightarrow> sim_of c \<le> frameBest f"
  by (auto simp: sim_of_def frameBest_upper)

lemma frames_below:
  assumes "\<forall>c\<in>set (candidates fs). sim_of c \<le> m" and "j < length fs" and "faces (fs ! j) \<noteq> []"
  shows "frameBest (fs ! j) \<le> m"
proof -
  from frameBest_attained [OF assms(3)] obtain d where d: "d \<in> set (faces (fs ! j))"
    and eq: "similarity (d_distance d) = frameBest (fs ! j)" by blast
  have "fs ! j \<in> set fs" using assms(2) by simp
  with d have "(fs ! j, d) \<in> set (candidates fs)" by (auto simp: candidates_def)
  with assms(1) have "sim_of (fs ! j, d) \<le> m" by blast
  with eq show ?thesis by (simp add: sim_of_def)
qed

lemma global_max_new:
  assumes "faces f \<noteq> []"
    and "\<forall>c\<in>set (candidates fs). sim_of c < frameBest f"
  shows "global_max (fs @ [f]) (newRecord f d (frameBest f)) (length fs)"
proof -
  from frameBest_attained [OF assms(1)] obtain d' where d': "d' \<in> set (faces f)"
    and eq: "similarity (d_distance d') = frameBest f" by blast
  have 1: "\<exists>c\<in>set (candidates (fs @ [f])). sim_of c = frameBest f"
    using d' eq by (intro bexI [of _ "(f, d')"]) (auto simp: candidates_def sim_of_def)
  have 2: "\<forall>c\<in>set (candidates (fs @ [f])). sim_of c \<le> frameBest f"
    using assms(2) sim_of_frame [of _ f]
    by (auto simp: candidates_append candidates_single simp del: set_map dest: less_imp_le)
  have 3: "\<forall>j<length fs. faces (fs ! j) = [] \<or> frameBest (fs ! j) < frameBest f"
  proof (intro allI impI)
    fix j assume j: "j < length fs"
    show "faces (fs ! j) = [] \<or> frameBest (fs ! j) < frameBest f"
    proof (cases "faces (fs ! j) = []")
      case True
      then show ?thesis by simp
    next
      case False
      from frameBest_attained [OF False] obtain e where e: "e \<in> set (faces (fs ! j))"
        and eq': "similarity (d_distance e) = frameBest (fs ! j)" by blast
      have "fs ! j \<in> set fs" using j by simp
      with e have "(fs ! j, e) \<in> set (candidates fs)" by (auto simp: candidates_def)
      with assms(2) have "sim_of (fs ! j, e) < frameBest f" by blast
      with eq' show ?thesis by (simp add: sim_of_def)
    qed
  qed
  show ?thesis
    unfolding global_max_def using 1 2 3 assms(1)
    by (simp add: newRecord_def nth_append)
qed

lemma global_max_kept:
  assumes "global_max fs r i" and "frameBest f \<le> score r"
  shows "global_max (fs @ [f]) r i"
proof -
  have "\<forall>c\<in>set (candidates (fs @ [f])). sim_of c \<le> score r"
  proof
    fix c assume "c \<in> set (candidates (fs @ [f]))"
    then consider "c \<in> set (candidates fs)" | "c \<in> set (map (Pair f) (faces f))"
      by (auto simp: candidates_append candidates_single simp del: set_map)
    then show "sim_of c \<le> score r"
    proof cases
      case 1
      with assms(1) show ?thesis unfolding global_max_def by blast
    next
      case 2
      from sim_of_frame [OF this] assms(2) show ?thesis by linarith
    qed
  qed
  then show ?thesis
    using assms(1) unfolding global_max_def
    by (auto simp: candidates_append nth_append)
qed

lemma scan_from_none:
  assumes "bestMatch s = None"
  shows "(candidates fs = [] \<longrightarrow> bestMatch (scanFrames fs s) = None)
       \<and> (candidates fs \<noteq> [] \<longrightarrow>
            (\<exists>r i. bestMatch (scanFrames fs s) = Some r \<and> global_max fs r i))"
proof (induction fs rule: rev_induct)
  case Nil
  show ?case using assms by (simp add: candidates_def)
next
  case (snoc f fs)
  let ?bm = "bestMatch (scanFrames fs s)"
  have step: "bestMatch (scanFrames (fs @ [f]) s) = runUpdaters f (frameBest f) (faces f) ?bm"
    by (rule frame_step)
  show ?case
  proof (cases "faces f")
    case Nil
    then have c: "candidates (fs @ [f]) = candidates fs"
      by (simp add: candidates_append candidates_single)
    have same: "bestMatch (scanFrames (fs @ [f]) s) = ?bm" by (simp add: step Nil)
    have "frameBest f = 0" by (simp add: frameBest_def Nil)
    have keep: "global_max (fs @ [f]) r i" if "global_max fs r i" for r i
      using that unfolding global_max_def c by (auto simp: nth_append)
    from snoc.IH show ?thesis unfolding c same using keep by blast
  next
    case (Cons d ds)
    then have ne: "faces f \<noteq> []" by simp
    have cne: "candidates (fs @ [f]) \<noteq> []"
      using Cons by (simp add: candidates_append candidates_single)
    have upd: "bestMatch (scanFrames (fs @ [f]) s) = updateBest f d (frameBest f) ?bm"
      unfolding step Cons by (rule runUpdaters_Cons_eq)
    show ?thesis
    proof (cases "candidates fs = []")
      case True
      with snoc.IH have none: "?bm = None" by simp
      have "\<forall>c\<in>set (candidates fs). sim_of c < frameBest f" using True by simp
      from global_max_new [OF ne this, of d]
      show ?thesis using cne by (auto simp: upd none updateBest_def)
    next
      case False
      with snoc.IH obtain r i where r: "?bm = Some r" and g: "global_max fs r i" by blast
      show ?thesis
      proof (cases "frameBest f > score r")
        case True
        have "\<forall>c\<in>set (candidates fs). sim_of c < frameBest f"
          using g True unfolding global_max_def by fastforce
        from global_max_new [OF ne this, of d]
        show ?thesis using cne True by (auto simp: upd r updateBest_def)
      next
        case False
        then have "frameBest f \<le> score r" by simp
        from global_max_kept [OF g this]
        show ?thesis using cne False by (auto simp: upd r updateBest_def)
      qed
    qed
  qed
qed

lemmas run_defs = frame_1_def frame_2_def frame_3_def frame_4_def face_a_def face_b_def
  face_c_def face_far_def animationFrame_def processFrame_resume_def
  updateBest_def newRecord_def frameBest_def Math_round_def
  dominantExpression_def sortedExpressions_def candidates_def record_of_def sim_of_def Let_def

lemmas handler_defs = ready_def initial_def clickStartStop_def render_def renderSource_def
  renderTarget_def startProcessing_def stopProcessing_def processFrame_enter_def
  handleImageUpload_def handleImageUpload_begin_def handleImageUpload_resume_def
  clearTarget_def resetApp_def loadModels_def

section \<open>Similarity score\<close>

text \<open>
  C3, as the code has it. For a distance \<open>d \<ge> 0\<close>, a binary64 value, the similarity is
  \<open>max(0, 1 - d)\<close> with the difference rounded to binary64; it lies in \<open>[0, 1]\<close>, is 1
  exactly when \<open>d \<le> 2^(-54)\<close>, which includes \<open>d = 0\<close>, and is 0 exactly when \<open>d \<ge> 1\<close>.
\<close>

theorem similarity_range:
  assumes "0 \<le> d" and "binary64 d = d"
  shows "similarity d = max 0 (binary64 (1 - d)) \<and> 0 \<le> similarity d \<and> similarity d \<le> 1
         \<and> (similarity d = 1 \<longleftrightarrow> d \<le> 1 / 2 ^ 54) \<and> (similarity d = 0 \<longleftrightarrow> 1 \<le> d)"
proof (intro conjI)
  show "similarity d = max 0 (binary64 (1 - d))" by (simp add: similarity_def)
  show "0 \<le> similarity d" by (simp add: similarity_def)
  have le1: "binary64 (1 - d) \<le> 1"
  proof (cases "0 < 1 - d")
    case True
    then have "binary64 (1 - d) \<le> 2 powi 0" using assms(1) by (intro binary64_le_pow2) simp_all
    then show ?thesis by simp
  next
    case False
    then have "binary64 (1 - d) \<le> 0" by (intro binary64_nonpos) simp
    then show ?thesis by simp
  qed
  then show "similarity d \<le> 1" by (simp add: similarity_def)
  show "similarity d = 1 \<longleftrightarrow> d \<le> 1 / 2 ^ 54"
  proof
    assume "d \<le> 1 / 2 ^ 54"
    then have "binary64 (1 - d) = 1" using assms(1) by (intro binary64_near_one) simp_all
    then show "similarity d = 1" by (simp add: similarity_def)
  next
    assume one: "similarity d = 1"
    show "d \<le> 1 / 2 ^ 54"
    proof (rule ccontr)
      assume "\<not> d \<le> 1 / 2 ^ 54"
      then have "binary64 (1 - d) < 1" by (intro binary64_below_one) simp
      with one show False by (simp add: similarity_def max_def split: if_splits)
    qed
  qed
  show "similarity d = 0 \<longleftrightarrow> 1 \<le> d"
  proof
    assume "1 \<le> d"
    then have "binary64 (1 - d) \<le> 0" by (intro binary64_nonpos) simp
    then show "similarity d = 0" by (simp add: similarity_def)
  next
    assume zero: "similarity d = 0"
    show "1 \<le> d"
    proof (rule ccontr)
      assume "\<not> 1 \<le> d"
      then have "d < 1" by simp
      from double_below_one [OF assms(2) this] have "1 / 2 ^ 53 \<le> 1 - d" by simp
      moreover have "(2::real) powi (- 1022) \<le> 1 / 2 ^ 53"
        by (simp add: power_int_minus_divide)
      ultimately have "2 powi (- 1022) \<le> 1 - d" by linarith
      then have "0 < binary64 (1 - d)" by (rule binary64_pos)
      with zero show False by (simp add: similarity_def)
    qed
  qed
qed


theorem similarity_range_witness:
  "(0::real) \<le> 1 / 4 \<and> binary64 (1 / 4) = 1 / 4
   \<and> similarity (1 / 4) = 3 / 4 \<and> similarity (1 / 4) \<noteq> 1 \<and> similarity (1 / 4) \<noteq> 0
   \<and> similarity 0 = 1 \<and> similarity 1 = 0 \<and> similarity 3 = 0"
proof -
  have a: "(0::real) \<le> 1 / 4" and b: "(0::real) \<le> 0" and c: "(0::real) \<le> 1" and e: "(0::real) \<le> 3"
    by simp_all
  have da: "binary64 (1 / 4) = 1 / 4" and db: "binary64 0 = 0" and dc: "binary64 1 = 1"
    and de: "binary64 3 = 3" and r: "binary64 (3 / 4) = 3 / 4"
    by (simp_all add: binary64_def exponent_def roundEven_def compute_bitlen)
  from similarity_range [OF a da] similarity_range [OF b db] similarity_range [OF c dc]
    similarity_range [OF e de] a da r
  show ?thesis by simp
qed

text \<open>
  The distance \<open>2^(-54)\<close> is a binary64 value and is not 0, and its similarity is 1: the
  difference \<open>1 - 2^(-54)\<close> lies halfway between two binary64 values and rounds to 1.
\<close>

theorem similarity_one_at_tiny_distance:
  "(0::real) < 1 / 2 ^ 54 \<and> binary64 (1 / 2 ^ 54) = 1 / 2 ^ 54 \<and> similarity (1 / 2 ^ 54) = 1"
  by (simp add: similarity_def binary64_def exponent_def roundEven_def compute_bitlen)

section \<open>Classification of a detection\<close>



section \<open>The best match of a run\<close>

text \<open>
  C1, as the code has it. A run that starts without a record and processes the frames
  \<open>fs\<close> ends without a record when no frame has a detection, and otherwise with a record
  whose score is the maximum of the similarities of all detections of the run; the
  snapshot and the timestamp of the record are those of the earliest frame whose best
  similarity is that maximum. In every run each value the record takes is the previous
  one or has a strictly higher score, and a frame whose best similarity is at most the
  score of the record leaves the record as it is.
\<close>

theorem final_score_is_global_maximum:
  "(bestMatch s = None \<longrightarrow>
      (candidates fs = [] \<longrightarrow> bestMatch (scanFrames fs s) = None)
    \<and> (candidates fs \<noteq> [] \<longrightarrow>
         (\<exists>r i. bestMatch (scanFrames fs s) = Some r
            \<and> (\<exists>c\<in>set (candidates fs). sim_of c = score r)
            \<and> (\<forall>c\<in>set (candidates fs). sim_of c \<le> score r)
            \<and> i < length fs \<and> faces (fs ! i) \<noteq> [] \<and> frameBest (fs ! i) = score r
            \<and> frameDataUrl r = snapshot (fs ! i) \<and> timestamp r = currentTime (fs ! i)
            \<and> (\<forall>j<i. faces (fs ! j) = [] \<or> frameBest (fs ! j) < score r))))
   \<and> successively kept_or_raised (bestMatch s # traceFrames fs (bestMatch s))
   \<and> (\<forall>p. bestMatch s = Some p \<and> frameBest f \<le> score p \<longrightarrow>
          bestMatch (processFrame_resume f s) = Some p)"
proof (intro conjI impI allI)
  assume "bestMatch s = None" and "candidates fs = []"
  then show "bestMatch (scanFrames fs s) = None"
    by (simp add: scanFrames_no_candidates)
next
  assume "bestMatch s = None" and "candidates fs \<noteq> []"
  with scan_from_none [of s fs]
  obtain r i where "bestMatch (scanFrames fs s) = Some r" and "global_max fs r i" by blast
  then show "\<exists>r i. bestMatch (scanFrames fs s) = Some r
            \<and> (\<exists>c\<in>set (candidates fs). sim_of c = score r)
            \<and> (\<forall>c\<in>set (candidates fs). sim_of c \<le> score r)
            \<and> i < length fs \<and> faces (fs ! i) \<noteq> [] \<and> frameBest (fs ! i) = score r
            \<and> frameDataUrl r = snapshot (fs ! i) \<and> timestamp r = currentTime (fs ! i)
            \<and> (\<forall>j<i. faces (fs ! j) = [] \<or> frameBest (fs ! j) < score r)"
    unfolding global_max_def by blast
next
  show "successively kept_or_raised (bestMatch s # traceFrames fs (bestMatch s))"
    by (rule traceFrames_successively)
next
  fix p assume "bestMatch s = Some p \<and> frameBest f \<le> score p"
  then show "bestMatch (processFrame_resume f s) = Some p"
    by (simp add: frame_step_kept)
qed

theorem final_score_is_global_maximum_witness:
  "bestMatch initial = None
   \<and> candidates [frame_1, frame_2] = [(frame_1, face_a), (frame_2, face_b), (frame_2, face_c)]
   \<and> sim_of (frame_1, face_a) = 1 / 4 \<and> sim_of (frame_2, face_b) = 3 / 4
   \<and> sim_of (frame_2, face_c) = 3 / 4
   \<and> (\<exists>r. bestMatch (scanFrames [frame_1, frame_2] initial) = Some r
          \<and> score r = 3 / 4 \<and> frameDataUrl r = ''data:2'' \<and> timestamp r = 2)"
proof -
  have h: "bestMatch initial = None" by (simp add: initial_def)
  have cs: "candidates [frame_1, frame_2] = [(frame_1, face_a), (frame_2, face_b), (frame_2, face_c)]"
    by (simp add: candidates_def frame_1_def frame_2_def)
  have sims: "sim_of (frame_1, face_a) = 1 / 4" "sim_of (frame_2, face_b) = 3 / 4"
    "sim_of (frame_2, face_c) = 3 / 4"
    by (simp_all add: sim_of_def similarity_examples face_a_def face_b_def face_c_def)
  have fb: "frameBest frame_1 = 1 / 4" "frameBest frame_2 = 3 / 4"
    by (simp_all add: frameBest_def frame_1_def frame_2_def similarity_examples
        face_a_def face_b_def face_c_def)
  have ne: "candidates [frame_1, frame_2] \<noteq> []" by (simp add: cs)
  from final_score_is_global_maximum [of initial "[frame_1, frame_2]"] h ne
  obtain r i where best: "bestMatch (scanFrames [frame_1, frame_2] initial) = Some r"
    and att: "\<exists>c\<in>set (candidates [frame_1, frame_2]). sim_of c = score r"
    and mx: "\<forall>c\<in>set (candidates [frame_1, frame_2]). sim_of c \<le> score r"
    and i: "i < length [frame_1, frame_2]"
    and fbi: "frameBest ([frame_1, frame_2] ! i) = score r"
    and url: "frameDataUrl r = snapshot ([frame_1, frame_2] ! i)"
    and ts: "timestamp r = currentTime ([frame_1, frame_2] ! i)"
    by blast
  from mx have "3 / 4 \<le> score r" by (simp add: cs sims)
  moreover from att have "score r = 1 / 4 \<or> score r = 3 / 4" by (auto simp: cs sims)
  ultimately have sc: "score r = 3 / 4" by auto
  from i have "i = 0 \<or> i = 1" by auto
  with fbi sc have "i = 1" by (auto simp: fb)
  with url ts have "frameDataUrl r = ''data:2'' \<and> timestamp r = 2" by (simp add: frame_2_def)
  with best sc h cs sims show ?thesis by simp
qed

text \<open>
  Two runs. In the first the session \<open>scanned\<close>, whose record has the score 0.75, is
  stopped and started again and then processes \<open>frame_1\<close>, whose only detection has the
  similarity 0.25: the record of the earlier run stays, with a score that is not a
  similarity of this run. In the second a run without a record processes \<open>frame_1\<close> and
  then \<open>frame_4\<close>, which shows \<open>face_a\<close>, of similarity 0.25, before \<open>face_b\<close>, of similarity
  0.75: the record of score 0.25 is replaced by the updater of \<open>face_a\<close>, a detection of
  that same similarity, and the final record has the score of \<open>face_b\<close> with the age,
  gender and expression of \<open>face_a\<close>.
\<close>

theorem final_record_not_global_maximum:
  "state (clickStartStop False (clickStartStop False scanned)) = PROCESSING
   \<and> candidates [frame_1] = [(frame_1, face_a)] \<and> sim_of (frame_1, face_a) = 1 / 4
   \<and> bestMatch (scanFrames [frame_1] (clickStartStop False (clickStartStop False scanned)))
       = Some \<lparr> score = 3 / 4, frameDataUrl = ''data:2'', timestamp = 2, age = 20,
           gender = ''female'', genderProbability = 3 / 4, expression = Some ''neutral'' \<rparr>
   \<and> bestMatch (scanFrames [frame_1] ready)
       = Some \<lparr> score = 1 / 4, frameDataUrl = ''data:1'', timestamp = 1, age = 35,
           gender = ''male'', genderProbability = 7 / 8, expression = Some ''sad'' \<rparr>
   \<and> sim_of (frame_4, face_a) = 1 / 4 \<and> sim_of (frame_4, face_b) = 3 / 4
   \<and> bestMatch (scanFrames [frame_1, frame_4] ready)
       = Some \<lparr> score = 3 / 4, frameDataUrl = ''data:4'', timestamp = 4, age = 35,
           gender = ''male'', genderProbability = 7 / 8, expression = Some ''sad'' \<rparr>"
  by (simp add: scanned_def handler_defs run_defs similarity_examples)

text \<open>
  C2. The session holds the Match Record in the one field \<open>bestMatch\<close>, absent or a
  single record. Along the successive values this field takes during a run, which end in
  the value the run leaves, a record is never followed by its absence, and the score of a
  record is at most the score of the next.
\<close>

theorem score_never_decreases:
  "successively score_kept (bestMatch s # traceFrames fs (bestMatch s))
   \<and> last (bestMatch s # traceFrames fs (bestMatch s)) = bestMatch (scanFrames fs s)"
proof
  show "successively score_kept (bestMatch s # traceFrames fs (bestMatch s))"
    by (rule successively_mono [OF traceFrames_successively]) (rule kept_or_raised_score_kept)
  show "last (bestMatch s # traceFrames fs (bestMatch s)) = bestMatch (scanFrames fs s)"
    by (rule traceFrames_last)
qed

theorem score_never_decreases_witness:
  "traceFrames [frame_1, frame_2] None
     = [Some (record_of (frame_1, face_a)), Some (record_of (frame_2, face_b)),
        Some (record_of (frame_2, face_b))]
   \<and> successively score_kept (None # traceFrames [frame_1, frame_2] None)"
proof -
  have "bestMatch initial = None" by (simp add: initial_def)
  with score_never_decreases [of initial "[frame_1, frame_2]"]
  have "successively score_kept (None # traceFrames [frame_1, frame_2] None)" by simp
  moreover have "traceFrames [frame_1, frame_2] None
     = [Some (record_of (frame_1, face_a)), Some (record_of (frame_2, face_b)),
        Some (record_of (frame_2, face_b))]"
    by (simp add: run_defs similarity_examples)
  ultimately show ?thesis by simp
qed

text \<open>
  C6, as the code has it. In a run that starts without a record, the first updater that
  runs creates the record, whatever the similarities are, so the run leaves a record as
  soon as it has one detection, and leaves none when it has no detection. In every run
  the record, once there, changes only to one of strictly higher score.
\<close>

theorem record_created_by_first_detection:
  "(bestMatch s = None \<longrightarrow>
      (candidates fs = [] \<longrightarrow> bestMatch (scanFrames fs s) = None)
    \<and> (candidates fs \<noteq> [] \<longrightarrow>
         traceFrames fs None \<noteq> [] \<and> hd (traceFrames fs None) \<noteq> None
         \<and> bestMatch (scanFrames fs s) \<noteq> None))
   \<and> successively kept_or_raised (bestMatch s # traceFrames fs (bestMatch s))"
proof (intro conjI impI)
  assume "bestMatch s = None" and "candidates fs = []"
  then show "bestMatch (scanFrames fs s) = None"
    by (simp add: scanFrames_no_candidates)
next
  assume "candidates fs \<noteq> []"
  then show "traceFrames fs None \<noteq> []" by (simp add: traceFrames_first)
next
  assume "candidates fs \<noteq> []"
  then show "hd (traceFrames fs None) \<noteq> None" by (simp add: traceFrames_first)
next
  assume "bestMatch s = None" and "candidates fs \<noteq> []"
  with scan_from_none [of s fs] show "bestMatch (scanFrames fs s) \<noteq> None" by auto
next
  show "successively kept_or_raised (bestMatch s # traceFrames fs (bestMatch s))"
    by (rule traceFrames_successively)
qed

theorem record_created_by_first_detection_witness:
  "bestMatch ready = None \<and> candidates [frame_3] = [(frame_3, face_far)]
   \<and> sim_of (frame_3, face_far) = 0
   \<and> hd (traceFrames [frame_3] None) \<noteq> None
   \<and> bestMatch (scanFrames [frame_3] ready) \<noteq> None"
proof -
  have h: "bestMatch ready = None" by (simp add: ready_def initial_def)
  have cs: "candidates [frame_3] = [(frame_3, face_far)]"
    by (simp add: candidates_def frame_3_def)
  have z: "sim_of (frame_3, face_far) = 0"
    by (simp add: sim_of_def similarity_examples face_far_def)
  from record_created_by_first_detection [of ready "[frame_3]"] h cs z show ?thesis by simp
qed

text \<open>
  A run whose only detection is at distance 1 of the reference, hence of similarity 0,
  creates a record of score 0: the updater's test is \<open>!prev || frameBestSim > prev.score\<close>,
  and \<open>!prev\<close> holds.
\<close>

theorem zero_similarity_creates_record:
  "bestMatch (scanFrames [frame_3] ready) =
     Some \<lparr> score = 0, frameDataUrl = ''data:3'', timestamp = 3, age = 41,
       gender = ''female'', genderProbability = 0.75, expression = Some ''neutral'' \<rparr>"
  by (simp add: handler_defs run_defs similarity_examples)

section \<open>Stopping\<close>

text \<open>
  C4. The start button is clicked on the session \<open>ready\<close>: a detection call is in flight.
  The button is clicked again, which stops: the phase is finished, no callback is pending,
  the call is still in flight and there is no record. When the call resolves with
  \<open>frame_2\<close>, \<open>processFrame\<close> goes on where it was: it sets the record, and requests the
  next animation frame.
\<close>

theorem stop_keeps_inflight_detection:
  "state (clickStartStop False ready) = PROCESSING
   \<and> awaiting (clickStartStop False ready)
   \<and> clickStartStop False (clickStartStop False ready) = stopProcessing (clickStartStop False ready)
   \<and> state (stopProcessing (clickStartStop False ready)) = FINISHED
   \<and> \<not> scheduled (stopProcessing (clickStartStop False ready))
   \<and> awaiting (stopProcessing (clickStartStop False ready))
   \<and> bestMatch (stopProcessing (clickStartStop False ready)) = None
   \<and> bestMatch (processFrame_resume frame_2 (stopProcessing (clickStartStop False ready)))
       = Some \<lparr> score = 0.75, frameDataUrl = ''data:2'', timestamp = 2, age = 20,
           gender = ''female'', genderProbability = 0.75, expression = Some ''neutral'' \<rparr>
   \<and> state (processFrame_resume frame_2 (stopProcessing (clickStartStop False ready))) = FINISHED
   \<and> scheduled (processFrame_resume frame_2 (stopProcessing (clickStartStop False ready)))"
  by (simp add: handler_defs run_defs similarity_examples)

section \<open>Loading the models\<close>

text \<open>
  C7. When a model fails to load, or the engine's script is missing, \<open>loadModels\<close> sets
  the error message and leaves the phase at \<open>LOADING_MODELS\<close>; for that phase \<open>App\<close> returns
  the loader screen, which does not show the message.
\<close>

theorem load_failure_stays_on_loader:
  "error (loadModels True False (initial\<lparr>isAuthenticated := True\<rparr>))
     = Some ''Failed to load AI models. Please check your internet connection.''
   \<and> state (loadModels True False (initial\<lparr>isAuthenticated := True\<rparr>)) = LOADING_MODELS
   \<and> render (loadModels True False (initial\<lparr>isAuthenticated := True\<rparr>)) = LoaderScreen
   \<and> render (loadModels False True (initial\<lparr>isAuthenticated := True\<rparr>)) = LoaderScreen"
  by (simp add: loadModels_def initial_def render_def)

section \<open>Uploading the reference image\<close>



text \<open>
  C10. An upload of a reference image clears the Match Record before the descriptor is
  computed, with the descriptor still the old one, and whatever the computation gives the
  record is absent once the handler is done, and the video source, the phase and the
  current similarity are what they were.
\<close>

theorem image_upload_clears_record:
  "bestMatch (handleImageUpload_begin url s) = None
   \<and> targetDescriptor (handleImageUpload_begin url s) = targetDescriptor s
   \<and> bestMatch (handleImageUpload (Some url) outcome s) = None
   \<and> videoSource (handleImageUpload (Some url) outcome s) = videoSource s
   \<and> state (handleImageUpload (Some url) outcome s) = state s
   \<and> currentSimilarity (handleImageUpload (Some url) outcome s) = currentSimilarity s"
  by (cases outcome)
    (simp_all add: handleImageUpload_def handleImageUpload_begin_def handleImageUpload_resume_def)

theorem image_upload_clears_record_witness:
  "bestMatch scanned \<noteq> None
   \<and> bestMatch (handleImageUpload (Some ''blob:other'') Threw scanned) = None
   \<and> bestMatch (handleImageUpload (Some ''blob:other'') NoDetection scanned) = None
   \<and> bestMatch (handleImageUpload (Some ''blob:other'') (Detected [1, 0]) scanned) = None
   \<and> videoSource (handleImageUpload (Some ''blob:other'') Threw scanned) = videoSource scanned"
proof -
  have "bestMatch scanned \<noteq> None"
    by (simp add: scanned_def handler_defs run_defs)
  with image_upload_clears_record [of "''blob:other''" scanned Threw]
    image_upload_clears_record [of "''blob:other''" scanned NoDetection]
    image_upload_clears_record [of "''blob:other''" scanned "Detected [1, 0]"]
  show ?thesis by simp
qed

section \<open>Reset\<close>

text \<open>
  C9. After \<open>resetApp\<close> the reference image, the video source, the descriptor, the Match
  Record and the error message are absent, the current similarity is 0 and the phase is
  idle: the session is the initial one but for the phase, the sign-in, a detection call in
  flight and the canvas.
\<close>

theorem reset_restores_initial_values:
  "targetImage (resetApp s) = None \<and> videoSource (resetApp s) = None
   \<and> targetDescriptor (resetApp s) = None \<and> bestMatch (resetApp s) = None
   \<and> currentSimilarity (resetApp s) = 0 \<and> error (resetApp s) = None
   \<and> state (resetApp s) = IDLE
   \<and> resetApp s = initial\<lparr>isAuthenticated := isAuthenticated s, state := IDLE,
        awaiting := awaiting s, canvas := canvas s\<rparr>"
  by (simp add: resetApp_def stopProcessing_def initial_def)

theorem reset_restores_initial_values_witness:
  "bestMatch (stopProcessing scanned) \<noteq> None \<and> targetImage (stopProcessing scanned) \<noteq> None
   \<and> state (stopProcessing scanned) = FINISHED
   \<and> bestMatch (resetApp (stopProcessing scanned)) = None
   \<and> targetImage (resetApp (stopProcessing scanned)) = None
   \<and> videoSource (resetApp (stopProcessing scanned)) = None
   \<and> targetDescriptor (resetApp (stopProcessing scanned)) = None
   \<and> error (resetApp (stopProcessing scanned)) = None
   \<and> state (resetApp (stopProcessing scanned)) = IDLE"
proof -
  have "bestMatch (stopProcessing scanned) \<noteq> None \<and> targetImage (stopProcessing scanned) \<noteq> None
      \<and> state (stopProcessing scanned) = FINISHED"
    by (simp add: scanned_def handler_defs run_defs)
  with reset_restores_initial_values [of "stopProcessing scanned"] show ?thesis by blast
qed

end
